theory Spec2Isabelle
  imports Complex_Main
begin

section \<open>The command-line front end of the UI/UX search tool\<close>

text \<open>
  A shallow embedding of \<^verbatim>\<open>.codex/skills/ui-ux-pro-max/scripts/search.py\<close>: the text
  renderer \<^verbatim>\<open>format_output\<close> and the script body under \<^verbatim>\<open>__main__\<close>.

  The modules \<^verbatim>\<open>core\<close> and \<^verbatim>\<open>design_system\<close> that the script imports are not among
  the sources. Their functions are parameters of the model (the record \<open>env\<close>); the
  ranking and slugging contracts that the specification gives for them are modelled
  separately, from the specification's words, in the last sections.
\<close>

subsection \<open>Python values\<close>

text \<open>
  A Python \<^verbatim>\<open>str\<close> is a sequence of Unicode code points, and \<^verbatim>\<open>len\<close> and slicing count
  code points. A string is therefore a list of code points, each a natural number;
  \<open>lit\<close> turns an ASCII literal into one.
\<close>

type_synonym pystr = "nat list"

definition lit :: "string \<Rightarrow> pystr" where
  "lit s = map of_char s"

text \<open>\<^verbatim>\<open>sep.join(xs)\<close>.\<close>

fun str_join :: "pystr \<Rightarrow> pystr list \<Rightarrow> pystr" where
  "str_join sep [] = []"
| "str_join sep [x] = x"
| "str_join sep (x # y # ys) = x @ sep @ str_join sep (y # ys)"

text \<open>
  The scalar values that a result envelope and a row of a knowledge base hold: text,
  a count, or \<^verbatim>\<open>None\<close>. \<open>py_str\<close> is \<^verbatim>\<open>str(value)\<close> (and what an f-string field
  shows), \<open>truthy\<close> is the truth value Python tests in \<^verbatim>\<open>if value\<close>.
\<close>

datatype pyval = PNone | PStr pystr | PInt int

function dec_nat :: "nat \<Rightarrow> pystr" where
  "dec_nat n = (if n < 10 then [48 + n] else dec_nat (n div 10) @ [48 + n mod 10])"
  by pat_completeness auto
termination
  by (relation "measure id") auto

declare dec_nat.simps [simp del]

definition dec_int :: "int \<Rightarrow> pystr" where
  "dec_int i = (if i < 0 then 45 # dec_nat (nat (- i)) else dec_nat (nat i))"

fun py_str :: "pyval \<Rightarrow> pystr" where
  "py_str PNone = lit ''None''"
| "py_str (PStr s) = s"
| "py_str (PInt i) = dec_int i"

fun truthy :: "pyval \<Rightarrow> bool" where
  "truthy PNone = False"
| "truthy (PStr s) = (s \<noteq> [])"
| "truthy (PInt i) = (i \<noteq> 0)"

text \<open>An uncaught exception: a missing dictionary key, or one a collaborator raised.\<close>

datatype pyexn = KeyError pystr | Exception pystr

text \<open>\<^verbatim>\<open>d[key]\<close> on a dictionary entry that may be absent.\<close>

definition getitem :: "pystr \<Rightarrow> 'a option \<Rightarrow> pyexn + 'a" where
  "getitem key entry = (case entry of None \<Rightarrow> Inl (KeyError key) | Some v \<Rightarrow> Inr v)"

definition and_then :: "'e + 'a \<Rightarrow> ('a \<Rightarrow> 'e + 'b) \<Rightarrow> 'e + 'b" where
  "and_then r f = (case r of Inl e \<Rightarrow> Inl e | Inr v \<Rightarrow> f v)"

subsection \<open>The result envelope and \<^verbatim>\<open>format_output\<close>\<close>

text \<open>
  The dictionary that a search returns, restricted to the keys \<^verbatim>\<open>format_output\<close>
  reads. A field is \<open>None\<close> when the dictionary has no such key. A row is the
  sequence \<^verbatim>\<open>row.items()\<close> of its (column name, value) pairs, in order.
\<close>

type_synonym row = "(pystr \<times> pyval) list"

record result =
  r_error :: "pyval option"
  r_stack :: "pyval option"
  r_domain :: "pyval option"
  r_query :: "pyval option"
  r_file :: "pyval option"
  r_count :: "pyval option"
  r_results :: "row list option"

text \<open>Lines 70 to 72: the text shown for one field value.\<close>

definition value_text :: "pyval \<Rightarrow> pystr" where
  "value_text v =
     (let value_str = py_str v
      in if length value_str > 300 then take 300 value_str @ lit ''...'' else value_str)"

text \<open>Lines 68 to 74: the lines of the \<open>i\<close>-th row.\<close>

definition row_lines :: "nat \<Rightarrow> row \<Rightarrow> pystr list" where
  "row_lines i r =
     (lit ''### Result '' @ dec_nat i)
     # map (\<lambda>(key, v). lit ''- **'' @ key @ lit '':** '' @ value_text v) r
     @ [[]]"

text \<open>Lines 59 to 65: the heading, which reads the keys in the order of the source.\<close>

definition header_lines :: "result \<Rightarrow> pyexn + pystr list" where
  "header_lines res =
     and_then
       (if (case r_stack res of None \<Rightarrow> False | Some s \<Rightarrow> truthy s) then
          and_then (getitem (lit ''stack'') (r_stack res)) (\<lambda>s.
          and_then (getitem (lit ''query'') (r_query res)) (\<lambda>q.
          Inr [lit ''## UI Pro Max Stack Guidelines'',
               lit ''**Stack:** '' @ py_str s @ lit '' | **Query:** '' @ py_str q]))
        else
          and_then (getitem (lit ''domain'') (r_domain res)) (\<lambda>d.
          and_then (getitem (lit ''query'') (r_query res)) (\<lambda>q.
          Inr [lit ''## UI Pro Max Search Results'',
               lit ''**Domain:** '' @ py_str d @ lit '' | **Query:** '' @ py_str q])))
       (\<lambda>top.
          and_then (getitem (lit ''file'') (r_file res)) (\<lambda>f.
          and_then (getitem (lit ''count'') (r_count res)) (\<lambda>c.
          Inr (top @ [lit ''**Source:** '' @ py_str f @ lit '' | **Found:** '' @ py_str c
                        @ lit '' results'' @ [10]]))))"

text \<open>
  The list \<^verbatim>\<open>output\<close> as it stands before the final join; \<^verbatim>\<open>enumerate\<close> counts
  the rows from 1.
\<close>

definition output_lines :: "result \<Rightarrow> pyexn + pystr list" where
  "output_lines res =
     and_then (header_lines res) (\<lambda>hd_lines.
     and_then (getitem (lit ''results'') (r_results res)) (\<lambda>rows.
     Inr (hd_lines @ concat (map (\<lambda>(i, r). row_lines i r) (zip [1 ..< Suc (length rows)] rows)))))"

definition format_output :: "result \<Rightarrow> pyexn + pystr" where
  "format_output res =
     (case r_error res of
        Some e \<Rightarrow> Inr (lit ''Error: '' @ py_str e)
      | None \<Rightarrow> and_then (output_lines res) (\<lambda>out. Inr (str_join [10] out)))"

subsection \<open>Paths\<close>

text \<open>
  A \<^verbatim>\<open>pathlib\<close> path on a POSIX system: the root (\<^verbatim>\<open>''\<close>, \<^verbatim>\<open>'/'\<close> or \<^verbatim>\<open>'//'\<close>) and the
  parts after it. Parsing a string splits it at \<^verbatim>\<open>'/'\<close> and drops the empty parts and
  the parts \<^verbatim>\<open>'.'\<close>; \<open>joinpath\<close> is the operator \<^verbatim>\<open>/\<close> with a string on the right, which
  starts afresh when that string is absolute; \<open>path_str\<close> is \<^verbatim>\<open>str(path)\<close>.
\<close>

record ppath =
  root :: pystr
  tail :: "pystr list"

fun split_on :: "nat \<Rightarrow> pystr \<Rightarrow> pystr list" where
  "split_on c [] = [[]]"
| "split_on c (x # xs) =
     (if x = c then [] # split_on c xs
      else (case split_on c xs of [] \<Rightarrow> [[x]] | w # ws \<Rightarrow> (x # w) # ws))"

definition segments :: "pystr \<Rightarrow> pystr list" where
  "segments s = filter (\<lambda>x. x \<noteq> [] \<and> x \<noteq> lit ''.'') (split_on 47 s)"

definition splitroot :: "pystr \<Rightarrow> pystr \<times> pystr" where
  "splitroot p =
     (if take 1 p \<noteq> [47] then ([], p)
      else if take 1 (drop 1 p) \<noteq> [47] \<or> take 1 (drop 2 p) = [47] then ([47], drop 1 p)
      else ([47, 47], drop 2 p))"

definition parse_path :: "pystr \<Rightarrow> ppath" where
  "parse_path s = (case splitroot s of (rt, rel) \<Rightarrow> \<lparr>root = rt, tail = segments rel\<rparr>)"

definition joinpath :: "ppath \<Rightarrow> pystr \<Rightarrow> ppath" where
  "joinpath p s =
     (if take 1 s = [47] then parse_path s else \<lparr>root = root p, tail = tail p @ segments s\<rparr>)"

definition path_str :: "ppath \<Rightarrow> pystr" where
  "path_str p = (if root p = [] \<and> tail p = [] then lit ''.'' else root p @ str_join [47] (tail p))"

subsection \<open>The command line\<close>

text \<open>
  An invocation is the sequence of its arguments as \<^verbatim>\<open>argparse\<close> recognises them: a
  positional word, or one of the options that lines 81 to 94 declare, with its value.
  \<open>OptMaxResults\<close> carries what \<^verbatim>\<open>int\<close> makes of the text (\<open>None\<close> when it raises).
  The option \<^verbatim>\<open>-h\<close> that \<^verbatim>\<open>argparse\<close> adds by itself, which prints the usage and exits
  before the script's own code runs, is not part of the model.
\<close>

datatype token =
    Positional pystr
  | OptDomain pystr
  | OptStack pystr
  | OptMaxResults "int option"
  | OptJson
  | OptDesignSystem
  | OptProjectName pystr
  | OptFormat pystr
  | OptPersist
  | OptPage pystr
  | OptOutputDir pystr

record namespace =
  ns_query :: pystr
  ns_domain :: "pystr option"
  ns_stack :: "pystr option"
  ns_max_results :: int
  ns_json :: bool
  ns_design_system :: bool
  ns_project_name :: "pystr option"
  ns_format :: pystr
  ns_persist :: bool
  ns_page :: "pystr option"
  ns_output_dir :: "pystr option"

text \<open>
  An argument error ends the program with the usage message and exit status 2:
  those \<^verbatim>\<open>argparse\<close> raises while parsing, and \<open>ParserError\<close> for the script's own
  calls of \<^verbatim>\<open>parser.error\<close>.
\<close>

datatype argerror =
    InvalidChoice pystr
  | NotAllowedWith pystr
  | InvalidInt
  | MissingQuery
  | Unrecognized "pystr list"
  | ParserError pystr

text \<open>
  What the script imports and what the runtime provides. The search functions and the
  generator may raise; the others are pure.
\<close>

record env =
  CSV_CONFIG_keys :: "pystr list"
  AVAILABLE_STACKS :: "pystr list"
  search :: "pystr \<Rightarrow> pystr option \<Rightarrow> int \<Rightarrow> pyexn + result"
  search_stack :: "pystr \<Rightarrow> pystr \<Rightarrow> int \<Rightarrow> pyexn + result"
  generate_design_system ::
    "pystr \<Rightarrow> pystr option \<Rightarrow> pystr \<Rightarrow> bool \<Rightarrow> pystr option \<Rightarrow> pystr option \<Rightarrow> pyexn + pystr"
  slugify_path_segment :: "pystr \<Rightarrow> pystr \<Rightarrow> pystr"
  json_dumps :: "result \<Rightarrow> pystr"
  str_upper :: "pystr \<Rightarrow> pystr"
  Path_cwd :: ppath
  Path_resolve :: "pystr \<Rightarrow> ppath"

text \<open>
  Modelled from the spec: the constant \<^verbatim>\<open>MAX_RESULTS\<close> of the module \<^verbatim>\<open>core\<close>, which is
  not among the sources. The specification gives ``a result-count limit (default 3)'',
  and the help text of line 85 says the same.
\<close>

definition MAX_RESULTS :: int where
  "MAX_RESULTS = 3"

text \<open>The namespace before any argument is read: the defaults of lines 81 to 94.\<close>

definition defaults :: namespace where
  "defaults =
     \<lparr>ns_query = [], ns_domain = None, ns_stack = None, ns_max_results = MAX_RESULTS,
      ns_json = False, ns_design_system = False, ns_project_name = None,
      ns_format = lit ''ascii'', ns_persist = False, ns_page = None, ns_output_dir = None\<rparr>"

text \<open>
  One argument. A value outside the declared choices is an error; \<^verbatim>\<open>--domain\<close> and
  \<^verbatim>\<open>--stack\<close> form a mutually exclusive group (lines 82 to 84), so each is an error
  once the other has been given. Positional words are collected on the side.
\<close>

fun take_action ::
  "env \<Rightarrow> token \<Rightarrow> namespace \<times> pystr list \<Rightarrow> argerror + namespace \<times> pystr list" where
  "take_action e (Positional w) (ns, pos) = Inr (ns, pos @ [w])"
| "take_action e (OptDomain d) (ns, pos) =
     (if d \<notin> set (CSV_CONFIG_keys e) then Inl (InvalidChoice (lit ''--domain''))
      else if ns_stack ns \<noteq> None then Inl (NotAllowedWith (lit ''--stack''))
      else Inr (ns\<lparr>ns_domain := Some d\<rparr>, pos))"
| "take_action e (OptStack s) (ns, pos) =
     (if s \<notin> set (AVAILABLE_STACKS e) then Inl (InvalidChoice (lit ''--stack''))
      else if ns_domain ns \<noteq> None then Inl (NotAllowedWith (lit ''--domain''))
      else Inr (ns\<lparr>ns_stack := Some s\<rparr>, pos))"
| "take_action e (OptMaxResults n) (ns, pos) =
     (case n of None \<Rightarrow> Inl InvalidInt | Some i \<Rightarrow> Inr (ns\<lparr>ns_max_results := i\<rparr>, pos))"
| "take_action e OptJson (ns, pos) = Inr (ns\<lparr>ns_json := True\<rparr>, pos)"
| "take_action e OptDesignSystem (ns, pos) = Inr (ns\<lparr>ns_design_system := True\<rparr>, pos)"
| "take_action e (OptProjectName p) (ns, pos) = Inr (ns\<lparr>ns_project_name := Some p\<rparr>, pos)"
| "take_action e (OptFormat f) (ns, pos) =
     (if f \<notin> {lit ''ascii'', lit ''markdown''} then Inl (InvalidChoice (lit ''--format''))
      else Inr (ns\<lparr>ns_format := f\<rparr>, pos))"
| "take_action e OptPersist (ns, pos) = Inr (ns\<lparr>ns_persist := True\<rparr>, pos)"
| "take_action e (OptPage p) (ns, pos) = Inr (ns\<lparr>ns_page := Some p\<rparr>, pos)"
| "take_action e (OptOutputDir d) (ns, pos) = Inr (ns\<lparr>ns_output_dir := Some d\<rparr>, pos)"

fun parse_loop ::
  "env \<Rightarrow> token list \<Rightarrow> namespace \<times> pystr list \<Rightarrow> argerror + namespace \<times> pystr list" where
  "parse_loop e [] st = Inr st"
| "parse_loop e (t # ts) st =
     (case take_action e t st of Inl err \<Rightarrow> Inl err | Inr st' \<Rightarrow> parse_loop e ts st')"

text \<open>
  \<^verbatim>\<open>parser.parse_args()\<close>: the arguments in order, then the one required positional
  \<^verbatim>\<open>query\<close>; further positional words are unrecognised arguments.
\<close>

definition parse_args :: "env \<Rightarrow> token list \<Rightarrow> argerror + namespace" where
  "parse_args e argv =
     (case parse_loop e argv (defaults, []) of
        Inl err \<Rightarrow> Inl err
      | Inr (ns, pos) \<Rightarrow>
          (case pos of
             [] \<Rightarrow> Inl MissingQuery
           | [q] \<Rightarrow> Inr (ns\<lparr>ns_query := q\<rparr>)
           | q # extra \<Rightarrow> Inl (Unrecognized extra)))"

subsection \<open>The script body\<close>

text \<open>
  What a run does, in order: the calls into the collaborators (which retrieve, and for
  the generator also write the files) and the lines printed; and how it ends.
\<close>

datatype action =
    CallGenerateDesignSystem pystr "pystr option" pystr bool "pystr option" "pystr option"
  | CallSearchStack pystr pystr int
  | CallSearch pystr "pystr option" int
  | Print pystr

datatype exit = Finished | ArgumentError argerror | Raised pyexn

text \<open>The truth value of an optional string argument: \<^verbatim>\<open>None\<close> and \<^verbatim>\<open>''\<close> are false.\<close>

definition given :: "pystr option \<Rightarrow> bool" where
  "given a = (case a of None \<Rightarrow> False | Some s \<Rightarrow> s \<noteq> [])"

text \<open>Lines 121 to 124.\<close>

definition project_slug :: "env \<Rightarrow> namespace \<Rightarrow> pystr" where
  "project_slug e args =
     (let project_name =
            (if given (ns_project_name args) then the (ns_project_name args)
             else str_upper e (ns_query args))
      in slugify_path_segment e project_name (lit ''default''))"

definition base_output_dir :: "env \<Rightarrow> namespace \<Rightarrow> ppath" where
  "base_output_dir e args =
     (if given (ns_output_dir args) then Path_resolve e (the (ns_output_dir args))
      else Path_cwd e)"

definition design_system_dir :: "env \<Rightarrow> namespace \<Rightarrow> ppath" where
  "design_system_dir e args =
     joinpath (joinpath (base_output_dir e args) (lit ''design-system'')) (project_slug e args)"

text \<open>Line 127 and line 130: the two lines that list a written file.\<close>

definition master_line :: "env \<Rightarrow> namespace \<Rightarrow> pystr" where
  "master_line e args =
     lit ''   '' @ [128196] @ lit '' ''
     @ path_str (joinpath (design_system_dir e args) (lit ''MASTER.md''))
     @ lit '' (Global Source of Truth)''"

definition page_line :: "env \<Rightarrow> namespace \<Rightarrow> pystr" where
  "page_line e args =
     (let page_filename = slugify_path_segment e (the (ns_page args)) (lit ''page'')
      in lit ''   '' @ [128196] @ lit '' ''
         @ path_str (joinpath (joinpath (design_system_dir e args) (lit ''pages''))
                       (page_filename @ lit ''.md''))
         @ lit '' (Page Overrides)'')"

text \<open>Lines 120 to 134: the lines of the persistence confirmation.\<close>

definition confirmation :: "env \<Rightarrow> namespace \<Rightarrow> pystr list" where
  "confirmation e args =
     [[10] @ replicate 60 61,
      [9989] @ lit '' Design system persisted to '' @ path_str (design_system_dir e args) @ lit ''/'',
      master_line e args]
     @ (if given (ns_page args) then [page_line e args] else [])
     @ [[],
        [128214] @ lit '' Usage: When building a page, check ''
          @ path_str (joinpath (joinpath (design_system_dir e args) (lit ''pages'')) (lit ''[page].md''))
          @ lit '' first.'',
        lit ''   If exists, its rules override MASTER.md. Otherwise, use MASTER.md.'',
        replicate 60 61]"

text \<open>Lines 108 to 134.\<close>

definition run_design_system :: "env \<Rightarrow> namespace \<Rightarrow> action list \<times> exit" where
  "run_design_system e args =
     (let call = CallGenerateDesignSystem (ns_query args) (ns_project_name args) (ns_format args)
                   (ns_persist args) (ns_page args) (ns_output_dir args)
      in case generate_design_system e (ns_query args) (ns_project_name args) (ns_format args)
                (ns_persist args) (ns_page args) (ns_output_dir args) of
           Inl x \<Rightarrow> ([call], Raised x)
         | Inr doc \<Rightarrow>
             ([call, Print doc]
              @ (if ns_persist args then map Print (confirmation e args) else []),
              Finished))"

text \<open>Lines 138 to 142 and 146 to 150: printing what a search returned.\<close>

definition show_result :: "env \<Rightarrow> namespace \<Rightarrow> action \<Rightarrow> pyexn + result \<Rightarrow> action list \<times> exit" where
  "show_result e args call r =
     (case r of
        Inl x \<Rightarrow> ([call], Raised x)
      | Inr res \<Rightarrow>
          if ns_json args then ([call, Print (json_dumps e res)], Finished)
          else (case format_output res of
                  Inl x \<Rightarrow> ([call], Raised x)
                | Inr text \<Rightarrow> ([call, Print text], Finished)))"

text \<open>Lines 98 to 150: the checks on the parsed arguments, then the three modes.\<close>

definition body :: "env \<Rightarrow> namespace \<Rightarrow> action list \<times> exit" where
  "body e args =
     (if given (ns_page args) \<and> \<not> ns_persist args then
        ([], ArgumentError (ParserError (lit ''--page requires --persist'')))
      else if (ns_persist args \<or> given (ns_page args) \<or> given (ns_output_dir args))
              \<and> \<not> ns_design_system args then
        ([], ArgumentError (ParserError
               (lit ''--persist/--page/--output-dir can only be used with --design-system'')))
      else if ns_design_system args \<and> ns_json args then
        ([], ArgumentError (ParserError (lit ''--json is not supported with --design-system'')))
      else if ns_design_system args then run_design_system e args
      else if given (ns_stack args) then
        show_result e args
          (CallSearchStack (ns_query args) (the (ns_stack args)) (ns_max_results args))
          (search_stack e (ns_query args) (the (ns_stack args)) (ns_max_results args))
      else
        show_result e args
          (CallSearch (ns_query args) (ns_domain args) (ns_max_results args))
          (search e (ns_query args) (ns_domain args) (ns_max_results args)))"

definition main :: "env \<Rightarrow> token list \<Rightarrow> action list \<times> exit" where
  "main e argv =
     (case parse_args e argv of
        Inl err \<Rightarrow> ([], ArgumentError err)
      | Inr args \<Rightarrow> body e args)"

section \<open>The contracts of the imported modules\<close>

subsection \<open>Slugging\<close>

text \<open>
  Modelled from the spec: the function \<^verbatim>\<open>_slugify_path_segment\<close> of the module
  \<^verbatim>\<open>design_system\<close>, which is not among the sources. The specification's words are:
  ``lowercases, replaces whitespace/punctuation runs with a single separator, strips
  leading/trailing separators, strips or rejects path-traversal sequences and path
  separators embedded in the name, and substitutes \<^verbatim>\<open>fallback\<close> when the result would
  be empty''. The separator is \<^verbatim>\<open>-\<close>; every code point that is not an ASCII letter or
  digit counts as whitespace or punctuation, the dot and the slash among them.
\<close>

definition is_alnum :: "nat \<Rightarrow> bool" where
  "is_alnum c = ((48 \<le> c \<and> c \<le> 57) \<or> (65 \<le> c \<and> c \<le> 90) \<or> (97 \<le> c \<and> c \<le> 122))"

definition lower_cp :: "nat \<Rightarrow> nat" where
  "lower_cp c = (if 65 \<le> c \<and> c \<le> 90 then c + 32 else c)"

text \<open>
  Modelled from the spec: a run of code points that are not letters or digits becomes
  one separator.
\<close>

fun squeeze :: "pystr \<Rightarrow> pystr" where
  "squeeze [] = []"
| "squeeze (c # cs) =
     (if is_alnum c then c # squeeze cs
      else if take 1 (squeeze cs) = [45] then squeeze cs
      else 45 # squeeze cs)"

text \<open>Modelled from the spec: the separators at both ends are stripped.\<close>

definition strip_sep :: "pystr \<Rightarrow> pystr" where
  "strip_sep s = rev (dropWhile (\<lambda>c. c = 45) (rev (dropWhile (\<lambda>c. c = 45) s)))"

text \<open>Modelled from the spec: \<^verbatim>\<open>slugify(name, fallback)\<close>, the three steps in order.\<close>

definition slugify :: "pystr \<Rightarrow> pystr \<Rightarrow> pystr" where
  "slugify name fallback =
     (let s = strip_sep (squeeze (map lower_cp name))
      in if s = [] then fallback else s)"

subsection \<open>Ranking\<close>

text \<open>
  Modelled from the spec: the ranker of the module \<^verbatim>\<open>core\<close>, which is not among the
  sources. The specification's words are: ``compute a BM25-style score per row \<dots>
  Rows scoring zero (no overlapping terms) are excluded from results. Ties in score are
  broken by original row order (stable sort) \<dots> \<^verbatim>\<open>limit\<close> \<le> 0 yields an empty result
  without error'', with at most \<^verbatim>\<open>limit\<close> results. The specification leaves the
  scoring formula and its constants open, so the score of a row, given the query and the
  corpus, is the parameter \<open>bm25\<close>. A ranked result is the row's position in the corpus,
  the row and its score; the sort is the insertion sort of the library, by decreasing
  score.
\<close>

type_synonym 'r ranked = "nat \<times> 'r \<times> real"

definition position :: "'r ranked \<Rightarrow> nat" where
  "position x = fst x"

definition score :: "'r ranked \<Rightarrow> real" where
  "score x = snd (snd x)"

definition scored :: "('q \<Rightarrow> 'r list \<Rightarrow> 'r \<Rightarrow> real) \<Rightarrow> 'q \<Rightarrow> 'r list \<Rightarrow> 'r ranked list" where
  "scored bm25 query rows = map (\<lambda>(i, r). (i, r, bm25 query rows r)) (enumerate 0 rows)"

definition rank :: "('q \<Rightarrow> 'r list \<Rightarrow> 'r \<Rightarrow> real) \<Rightarrow> 'q \<Rightarrow> 'r list \<Rightarrow> int \<Rightarrow> 'r ranked list" where
  "rank bm25 query rows limit =
     take (nat limit)
       (sort_key (\<lambda>x. - score x) (filter (\<lambda>x. 0 < score x) (scored bm25 query rows)))"

section \<open>A concrete environment\<close>

text \<open>
  An environment on which the theorems below are exercised: two domains and one stack,
  searches that return one fixed envelope, a generator that returns a fixed document,
  the slugging of the previous section, ASCII upper-casing, and the working directory
  \<^verbatim>\<open>/work\<close>.
\<close>

definition long_row_result :: result where
  "long_row_result =
     \<lparr>r_error = None, r_stack = None, r_domain = Some (PStr (lit ''ux'')),
      r_query = Some (PStr (lit ''form'')), r_file = Some (PStr (lit ''ux.csv'')),
      r_count = Some (PInt 1),
      r_results = Some [[(lit ''Do'', PStr (replicate 301 97))]]\<rparr>"

definition demo_result :: result where
  "demo_result =
     \<lparr>r_error = None, r_stack = None, r_domain = Some (PStr (lit ''ux'')),
      r_query = Some (PStr (lit ''q'')), r_file = Some (PStr (lit ''ux.csv'')),
      r_count = Some (PInt 0), r_results = Some []\<rparr>"

definition demo_text :: pystr where
  "demo_text =
     str_join [10]
       [lit ''## UI Pro Max Search Results'',
        lit ''**Domain:** ux | **Query:** q'',
        lit ''**Source:** ux.csv | **Found:** 0 results'' @ [10]]"

definition upper_ascii :: "pystr \<Rightarrow> pystr" where
  "upper_ascii s = map (\<lambda>c. if 97 \<le> c \<and> c \<le> 122 then c - 32 else c) s"

definition demo_env :: env where
  "demo_env =
     \<lparr>CSV_CONFIG_keys = [lit ''style'', lit ''ux''],
      AVAILABLE_STACKS = [lit ''react''],
      search = (\<lambda>q d n. Inr demo_result),
      search_stack = (\<lambda>q s n. Inr demo_result),
      generate_design_system = (\<lambda>q p f persist page out. Inr (lit ''DOC'')),
      slugify_path_segment = slugify,
      json_dumps = (\<lambda>r. lit ''{}''),
      str_upper = upper_ascii,
      Path_cwd = \<lparr>root = [47], tail = [lit ''work'']\<rparr>,
      Path_resolve = parse_path\<rparr>"

text \<open>The namespace of a persisting design-system run for the query \<^verbatim>\<open>saas app\<close>.\<close>

definition persist_args :: "pystr option \<Rightarrow> namespace" where
  "persist_args page =
     defaults\<lparr>ns_design_system := True, ns_persist := True, ns_page := page,
              ns_query := lit ''saas app''\<rparr>"

section \<open>Notions for the statements\<close>


text \<open>The result-count limit that a call of a search entry point passes.\<close>

fun limit_of :: "action \<Rightarrow> int option" where
  "limit_of (CallSearch q d n) = Some n"
| "limit_of (CallSearchStack q s n) = Some n"
| "limit_of a = None"

text \<open>
  A string that \<^verbatim>\<open>pathlib\<close> takes as one path part: not empty, not \<^verbatim>\<open>.\<close>, and without
  a slash.
\<close>

definition plain_segment :: "pystr \<Rightarrow> bool" where
  "plain_segment s = (s \<noteq> [] \<and> s \<noteq> lit ''.'' \<and> 47 \<notin> set s)"

text \<open>
  The shape of a slug: lower-case letters, digits and separators, with no two separators
  in a row.
\<close>

fun tidy :: "pystr \<Rightarrow> bool" where
  "tidy [] = True"
| "tidy (c # cs) = (((c = 45 \<and> take 1 cs \<noteq> [45]) \<or> (is_alnum c \<and> lower_cp c = c)) \<and> tidy cs)"

text \<open>
  One ranked result comes before another: its score is higher, or the scores are equal
  and its row comes first in the corpus.
\<close>

definition ranks_before :: "'r ranked \<Rightarrow> 'r ranked \<Rightarrow> bool" where
  "ranks_before a b = (score b < score a \<or> (score a = score b \<and> position a < position b))"

section \<open>Properties\<close>

subsection \<open>The rendering of field values\<close>

lemma value_text_length: "length (value_text v) \<le> 303"
  by (simp add: value_text_def Let_def lit_def)

lemma row_lines_field:
  assumes "(key, v) \<in> set r"
  shows "lit ''- **'' @ key @ lit '':** '' @ value_text v \<in> set (row_lines i r)"
proof -
  have "f (key, v) \<in> f ` set r" for f :: "pystr \<times> pyval \<Rightarrow> pystr"
    using assms by (rule imageI)
  from this[of "\<lambda>(key, v). lit ''- **'' @ key @ lit '':** '' @ value_text v"]
  show ?thesis by (simp add: row_lines_def)
qed

lemma in_set_zip_snd:
  assumes "r \<in> set rows"
  shows "\<exists>i. (i, r) \<in> set (zip [1 ..< Suc (length rows)] rows)"
proof -
  have l: "length [1 ..< Suc (length rows)] = length rows"
    by (simp only: length_upt diff_Suc_1)
  from in_set_impl_in_set_zip2[OF l assms] obtain i
    where "(i, r) \<in> set (zip [1 ..< Suc (length rows)] rows)" .
  then show ?thesis ..
qed

lemma concat_rows_member:
  "(i, r) \<in> set ps \<Longrightarrow> x \<in> set (row_lines i r)
     \<Longrightarrow> x \<in> set (concat (map (\<lambda>(i, r). row_lines i r) ps))"
  by (induction ps) auto

lemma output_lines_field:
  assumes "output_lines res = Inr out" and "r_results res = Some rows"
    and "r \<in> set rows" and "(key, v) \<in> set r"
  shows "lit ''- **'' @ key @ lit '':** '' @ value_text v \<in> set out"
proof -
  from assms(1,2) obtain hd_lines where
    o: "out = hd_lines @ concat (map (\<lambda>(i, r). row_lines i r) (zip [1 ..< Suc (length rows)] rows))"
    by (auto simp: output_lines_def and_then_def getitem_def split: sum.splits)
  from in_set_zip_snd[OF assms(3)] obtain i
    where i: "(i, r) \<in> set (zip [1 ..< Suc (length rows)] rows)" ..
  from concat_rows_member[OF i row_lines_field[OF assms(4)]]
  show ?thesis
    unfolding o by (simp only: set_append Un_iff simp_thms)
qed

text \<open>
  C1 (as amended). Every field of every row of a result that \<^verbatim>\<open>format_output\<close> renders
  is shown on a line of its own, and the value text on that line is at most 303
  characters long: a value of at most 300 characters is shown whole, a longer one as its
  first 300 characters followed by three dots.
\<close>

theorem format_output_field_bound:
  assumes "r_error res = None" and "format_output res = Inr text"
    and "r_results res = Some rows" and "r \<in> set rows" and "(key, v) \<in> set r"
  shows "\<exists>out t. output_lines res = Inr out \<and> text = str_join [10] out
           \<and> lit ''- **'' @ key @ lit '':** '' @ t \<in> set out
           \<and> length t \<le> 303
           \<and> t = (if 300 < length (py_str v) then take 300 (py_str v) @ lit ''...'' else py_str v)"
proof -
  from assms(1,2) obtain out where out: "output_lines res = Inr out" "text = str_join [10] out"
    by (auto simp: format_output_def and_then_def split: sum.splits)
  have m: "lit ''- **'' @ key @ lit '':** '' @ value_text v \<in> set out"
    using output_lines_field[OF out(1) assms(3,4,5)] .
  have e: "value_text v = (if 300 < length (py_str v) then take 300 (py_str v) @ lit ''...'' else py_str v)"
    by (simp add: value_text_def Let_def)
  show ?thesis
    apply (rule exI[of _ out])
    apply (rule exI[of _ "value_text v"])
    using out m e value_text_length[of v] apply (intro conjI)
    apply assumption+
    done
qed


lemma value_text_long: "value_text (PStr (replicate 301 97)) = replicate 300 97 @ lit ''...''"
  by (simp add: value_text_def)

text \<open>
  C1, the claim as stated, fails: a value of 301 characters is shown as 303 characters.
\<close>

theorem format_output_over_300:
  "output_lines long_row_result =
     Inr [lit ''## UI Pro Max Search Results'',
          lit ''**Domain:** ux | **Query:** form'',
          lit ''**Source:** ux.csv | **Found:** 1 results'' @ [10],
          lit ''### Result 1'',
          lit ''- **Do:** '' @ replicate 300 97 @ lit ''...'',
          []]
   \<and> length (replicate 301 (97::nat)) = 301
   \<and> length (replicate 300 (97::nat) @ lit ''...'') = 303"
  by (simp add: long_row_result_def output_lines_def header_lines_def and_then_def getitem_def
      row_lines_def value_text_long dec_int_def dec_nat.simps lit_def)

text \<open>The bound of C1 at the row with the long value.\<close>

theorem format_output_field_bound_witness:
  "\<exists>out t. output_lines long_row_result = Inr out
      \<and> lit ''- **'' @ lit ''Do'' @ lit '':** '' @ t \<in> set out
      \<and> length t \<le> 303 \<and> t = replicate 300 97 @ lit ''...''"
proof -
  have f: "format_output long_row_result = Inr (str_join [10] 
      [lit ''## UI Pro Max Search Results'',
          lit ''**Domain:** ux | **Query:** form'',
          lit ''**Source:** ux.csv | **Found:** 1 results'' @ [10],
          lit ''### Result 1'',
          lit ''- **Do:** '' @ replicate 300 97 @ lit ''...'',
          []])"
    by (simp add: format_output_def long_row_result_def output_lines_def header_lines_def
        and_then_def getitem_def row_lines_def value_text_long dec_int_def dec_nat.simps lit_def)
  have e: "r_error long_row_result = None"
    and r: "r_results long_row_result = Some [[(lit ''Do'', PStr (replicate 301 97))]]"
    by (simp_all add: long_row_result_def)
  have m: "[(lit ''Do'', PStr (replicate 301 97))] \<in> set [[(lit ''Do'', PStr (replicate 301 97))]]"
    and k: "(lit ''Do'', PStr (replicate 301 97)) \<in> set [(lit ''Do'', PStr (replicate 301 97))]"
    by simp_all
  from format_output_field_bound[OF e f r m k] obtain out t
    where o: "output_lines long_row_result = Inr out"
      and i: "lit ''- **'' @ lit ''Do'' @ lit '':** '' @ t \<in> set out"
      and l: "length t \<le> 303"
      and t: "t = (if 300 < length (py_str (PStr (replicate 301 97)))
                   then take 300 (py_str (PStr (replicate 301 97))) @ lit ''...''
                   else py_str (PStr (replicate 301 97)))"
    by blast
  from t have "t = replicate 300 97 @ lit ''...''" by simp
  with o i l show ?thesis by blast
qed

subsection \<open>What the parser leaves in the namespace\<close>

lemma take_action_flags:
  assumes "take_action e t st = Inr st'"
  shows "ns_persist (fst st') = (ns_persist (fst st) \<or> t = OptPersist)"
    and "ns_json (fst st') = (ns_json (fst st) \<or> t = OptJson)"
    and "ns_design_system (fst st') = (ns_design_system (fst st) \<or> t = OptDesignSystem)"
  using assms by (cases t; cases st; auto split: if_splits option.splits)+

lemma parse_loop_persist:
  "parse_loop e ts st = Inr st' \<Longrightarrow> ns_persist (fst st') = (ns_persist (fst st) \<or> OptPersist \<in> set ts)"
proof (induction ts arbitrary: st)
  case Nil
  then show ?case by simp
next
  case (Cons t ts)
  from Cons.prems obtain st1 where s: "take_action e t st = Inr st1" "parse_loop e ts st1 = Inr st'"
    by (auto split: sum.splits)
  from Cons.IH[OF s(2)] take_action_flags(1)[OF s(1)] show ?case by auto
qed

lemma parse_loop_json:
  "parse_loop e ts st = Inr st' \<Longrightarrow> ns_json (fst st') = (ns_json (fst st) \<or> OptJson \<in> set ts)"
proof (induction ts arbitrary: st)
  case Nil
  then show ?case by simp
next
  case (Cons t ts)
  from Cons.prems obtain st1 where s: "take_action e t st = Inr st1" "parse_loop e ts st1 = Inr st'"
    by (auto split: sum.splits)
  from Cons.IH[OF s(2)] take_action_flags(2)[OF s(1)] show ?case by auto
qed

lemma parse_loop_design_system:
  "parse_loop e ts st = Inr st'
     \<Longrightarrow> ns_design_system (fst st') = (ns_design_system (fst st) \<or> OptDesignSystem \<in> set ts)"
proof (induction ts arbitrary: st)
  case Nil
  then show ?case by simp
next
  case (Cons t ts)
  from Cons.prems obtain st1 where s: "take_action e t st = Inr st1" "parse_loop e ts st1 = Inr st'"
    by (auto split: sum.splits)
  from Cons.IH[OF s(2)] take_action_flags(3)[OF s(1)] show ?case by auto
qed




lemma parse_args_fields:
  assumes "parse_args e argv = Inr args"
  shows "\<exists>st'. parse_loop e argv (defaults, []) = Inr st'
           \<and> ns_persist args = ns_persist (fst st') \<and> ns_json args = ns_json (fst st')
           \<and> ns_design_system args = ns_design_system (fst st') \<and> ns_page args = ns_page (fst st')
           \<and> ns_domain args = ns_domain (fst st') \<and> ns_stack args = ns_stack (fst st')
           \<and> ns_max_results args = ns_max_results (fst st')
           \<and> ns_project_name args = ns_project_name (fst st')
           \<and> ns_output_dir args = ns_output_dir (fst st')"
  using assms by (auto simp: parse_args_def split: sum.splits list.splits prod.splits)

lemma parse_args_persist:
  "parse_args e argv = Inr args \<Longrightarrow> ns_persist args = (OptPersist \<in> set argv)"
  using parse_args_fields[of e argv args] parse_loop_persist[of e argv "(defaults, [])"]
  by (auto simp: defaults_def)

lemma parse_args_json:
  "parse_args e argv = Inr args \<Longrightarrow> ns_json args = (OptJson \<in> set argv)"
  using parse_args_fields[of e argv args] parse_loop_json[of e argv "(defaults, [])"]
  by (auto simp: defaults_def)

lemma parse_args_design_system:
  "parse_args e argv = Inr args \<Longrightarrow> ns_design_system args = (OptDesignSystem \<in> set argv)"
  using parse_args_fields[of e argv args] parse_loop_design_system[of e argv "(defaults, [])"]
  by (auto simp: defaults_def)


subsection \<open>Rejected combinations of arguments\<close>














lemma format_output_demo: "format_output demo_result = Inr demo_text"
  by (simp add: format_output_def output_lines_def header_lines_def and_then_def getitem_def
      demo_result_def demo_text_def dec_int_def dec_nat.simps lit_def)





subsection \<open>The selector and the limit of a search\<close>

lemma take_action_untouched:
  assumes "take_action e t st = Inr st'"
  shows "(\<forall>n. t \<noteq> OptMaxResults n) \<Longrightarrow> ns_max_results (fst st') = ns_max_results (fst st)"
    and "(\<forall>d. t \<noteq> OptDomain d) \<Longrightarrow> ns_domain (fst st') = ns_domain (fst st)"
    and "(\<forall>s. t \<noteq> OptStack s) \<Longrightarrow> ns_stack (fst st') = ns_stack (fst st)"
    and "(\<forall>p. t \<noteq> OptProjectName p) \<Longrightarrow> ns_project_name (fst st') = ns_project_name (fst st)"
    and "(\<forall>d. t \<noteq> OptOutputDir d) \<Longrightarrow> ns_output_dir (fst st') = ns_output_dir (fst st)"
  using assms by (cases t; cases st; auto split: if_splits option.splits)+

lemma parse_loop_max_results:
  "parse_loop e ts st = Inr st' \<Longrightarrow> \<forall>n. OptMaxResults n \<notin> set ts
     \<Longrightarrow> ns_max_results (fst st') = ns_max_results (fst st)"
proof (induction ts arbitrary: st)
  case Nil
  then show ?case by simp
next
  case (Cons t ts)
  from Cons.prems(1) obtain st1 where s: "take_action e t st = Inr st1" "parse_loop e ts st1 = Inr st'"
    by (auto split: sum.splits)
  from Cons.prems(2) have "\<forall>n. t \<noteq> OptMaxResults n" "\<forall>n. OptMaxResults n \<notin> set ts" by auto
  with Cons.IH[OF s(2)] take_action_untouched(1)[OF s(1)] show ?case by simp
qed




lemma parse_loop_output_dir_untouched:
  "parse_loop e ts st = Inr st' \<Longrightarrow> \<forall>d. OptOutputDir d \<notin> set ts
     \<Longrightarrow> ns_output_dir (fst st') = ns_output_dir (fst st)"
proof (induction ts arbitrary: st)
  case Nil
  then show ?case by simp
next
  case (Cons t ts)
  from Cons.prems(1) obtain st1 where s: "take_action e t st = Inr st1" "parse_loop e ts st1 = Inr st'"
    by (auto split: sum.splits)
  from Cons.prems(2) have "\<forall>d. t \<noteq> OptOutputDir d" "\<forall>d. OptOutputDir d \<notin> set ts" by auto
  with Cons.IH[OF s(2)] take_action_untouched(5)[OF s(1)] show ?case by simp
qed

lemma parse_args_default_limit:
  assumes "parse_args e argv = Inr args" and "\<forall>n. OptMaxResults n \<notin> set argv"
  shows "ns_max_results args = 3"
  using parse_args_fields[OF assms(1)] parse_loop_max_results[of e argv "(defaults, [])"] assms(2)
  by (auto simp: defaults_def MAX_RESULTS_def)




lemma parse_args_no_output_dir:
  assumes "parse_args e argv = Inr args" and "\<forall>d. OptOutputDir d \<notin> set argv"
  shows "ns_output_dir args = None"
  using parse_args_fields[OF assms(1)] parse_loop_output_dir_untouched[of e argv "(defaults, [])"] assms(2)
  by (auto simp: defaults_def)


lemma show_result_limits:
  assumes "a \<in> set (fst (show_result e args call r))" and "limit_of a = Some n"
  shows "limit_of call = Some n"
  using assms by (auto simp: show_result_def split: sum.splits if_splits)

lemma run_design_system_limits:
  "a \<in> set (fst (run_design_system e args)) \<Longrightarrow> limit_of a = None"
  by (auto simp: run_design_system_def Let_def split: sum.splits if_splits)

lemma body_limits:
  assumes "a \<in> set (fst (body e args))" and "limit_of a = Some n"
  shows "n = ns_max_results args"
proof (cases "ns_design_system args")
  case True
  with assms(1) have "a \<in> set (fst (run_design_system e args))"
    by (simp add: body_def split: if_splits)
  with assms(2) run_design_system_limits[of a e args] show ?thesis by simp
next
  case False
  show ?thesis
  proof (cases "given (ns_stack args)")
    case True
    with False assms(1) have "a \<in> set (fst (show_result e args
          (CallSearchStack (ns_query args) (the (ns_stack args)) (ns_max_results args))
          (search_stack e (ns_query args) (the (ns_stack args)) (ns_max_results args))))"
      by (simp add: body_def split: if_splits)
    from show_result_limits[OF this assms(2)] show ?thesis by simp
  next
    case nostack: False
    with False assms(1) have "a \<in> set (fst (show_result e args
          (CallSearch (ns_query args) (ns_domain args) (ns_max_results args))
          (search e (ns_query args) (ns_domain args) (ns_max_results args))))"
      by (simp add: body_def split: if_splits)
    from show_result_limits[OF this assms(2)] show ?thesis by simp
  qed
qed

text \<open>
  C6. In an invocation that does not give \<^verbatim>\<open>--max-results\<close>, every call of a search
  entry point passes the limit 3.
\<close>

theorem default_limit_is_three:
  assumes "\<forall>n. OptMaxResults n \<notin> set argv"
  shows "\<forall>a \<in> set (fst (main e argv)). \<forall>n. limit_of a = Some n \<longrightarrow> n = 3"
proof (cases "parse_args e argv")
  case (Inl err)
  then show ?thesis by (simp add: main_def)
next
  case (Inr args)
  then have m: "main e argv = body e args" by (simp add: main_def)
  from parse_args_default_limit[OF Inr assms] body_limits[of _ e args] show ?thesis
    unfolding m by blast
qed

text \<open>C6 at the invocation with the query \<^verbatim>\<open>q\<close> alone.\<close>

theorem default_limit_is_three_witness:
  "main demo_env [Positional (lit ''q'')] = ([CallSearch (lit ''q'') None 3, Print demo_text], Finished)
   \<and> limit_of (hd (fst (main demo_env [Positional (lit ''q'')]))) = Some 3"
proof -
  have n: "\<forall>n. OptMaxResults n \<notin> set [Positional (lit ''q'')]" by simp
  have p: "parse_args demo_env [Positional (lit ''q'')] = Inr (defaults\<lparr>ns_query := lit ''q''\<rparr>)"
    by (simp add: parse_args_def)
  have m: "main demo_env [Positional (lit ''q'')] =
      ([CallSearch (lit ''q'') None (ns_max_results defaults), Print demo_text], Finished)"
    by (simp add: main_def p body_def show_result_def given_def format_output_demo)
       (simp add: defaults_def demo_env_def format_output_demo)
  then have "CallSearch (lit ''q'') None (ns_max_results defaults)
      \<in> set (fst (main demo_env [Positional (lit ''q'')]))" by simp
  with default_limit_is_three[OF n, of demo_env] have "ns_max_results defaults = 3"
    by fastforce
  with m show ?thesis by simp
qed



subsection \<open>The two selectors exclude each other\<close>




subsection \<open>The persistence confirmation\<close>

lemma split_on_no_sep: "c \<notin> set s \<Longrightarrow> split_on c s = [s]"
  by (induction s) auto

lemma segments_plain: "plain_segment s \<Longrightarrow> segments s = [s]"
  by (simp add: plain_segment_def segments_def split_on_no_sep)

lemma joinpath_plain:
  assumes "plain_segment s"
  shows "joinpath p s = \<lparr>root = root p, tail = tail p @ [s]\<rparr>"
proof -
  from assms have "take 1 s \<noteq> [47]"
    by (cases s) (auto simp: plain_segment_def)
  with segments_plain[OF assms] show ?thesis by (simp add: joinpath_def)
qed

lemma plain_literals:
  "plain_segment (lit ''design-system'')" "plain_segment (lit ''MASTER.md'')"
  "plain_segment (lit ''pages'')"
  by (simp_all add: plain_segment_def lit_def)

lemma plain_page_file:
  assumes "47 \<notin> set s"
  shows "plain_segment (s @ lit ''.md'')"
proof -
  have "length (s @ lit ''.md'') \<noteq> length (lit ''.'')" by (simp add: lit_def)
  then have "s @ lit ''.md'' \<noteq> lit ''.''" by metis
  with assms show ?thesis by (simp add: plain_segment_def) (simp add: lit_def)
qed

lemma master_path:
  assumes "plain_segment (project_slug e args)"
  shows "joinpath (design_system_dir e args) (lit ''MASTER.md'') =
           \<lparr>root = root (base_output_dir e args),
            tail = tail (base_output_dir e args)
                   @ [lit ''design-system'', project_slug e args, lit ''MASTER.md'']\<rparr>"
  by (simp add: design_system_dir_def joinpath_plain[OF plain_literals(1)]
      joinpath_plain[OF plain_literals(2)] joinpath_plain[OF assms])

lemma page_path:
  assumes "plain_segment (project_slug e args)" and "47 \<notin> set f"
  shows "joinpath (joinpath (design_system_dir e args) (lit ''pages'')) (f @ lit ''.md'') =
           \<lparr>root = root (base_output_dir e args),
            tail = tail (base_output_dir e args)
                   @ [lit ''design-system'', project_slug e args, lit ''pages'', f @ lit ''.md'']\<rparr>"
  by (simp add: design_system_dir_def joinpath_plain[OF plain_literals(1)]
      joinpath_plain[OF plain_literals(3)] joinpath_plain[OF assms(1)]
      joinpath_plain[OF plain_page_file[OF assms(2)]])

lemma body_design_system_persist:
  assumes "ns_design_system args" and "ns_persist args" and "\<not> ns_json args"
    and "generate_design_system e (ns_query args) (ns_project_name args) (ns_format args)
           (ns_persist args) (ns_page args) (ns_output_dir args) = Inr doc"
  shows "body e args =
           ([CallGenerateDesignSystem (ns_query args) (ns_project_name args) (ns_format args)
               True (ns_page args) (ns_output_dir args), Print doc]
            @ map Print (confirmation e args), Finished)"
  using assms by (simp add: body_def run_design_system_def)

lemma main_design_system_persist:
  assumes "parse_args e argv = Inr args"
    and "OptDesignSystem \<in> set argv" and "OptPersist \<in> set argv" and "OptJson \<notin> set argv"
    and "generate_design_system e (ns_query args) (ns_project_name args) (ns_format args)
           (ns_persist args) (ns_page args) (ns_output_dir args) = Inr doc"
  shows "main e argv =
           ([CallGenerateDesignSystem (ns_query args) (ns_project_name args) (ns_format args)
               True (ns_page args) (ns_output_dir args), Print doc]
            @ map Print (confirmation e args), Finished)"
proof -
  have "ns_design_system args" "ns_persist args" "\<not> ns_json args"
    using parse_args_design_system[OF assms(1)] parse_args_persist[OF assms(1)]
      parse_args_json[OF assms(1)] assms(2-4) by simp_all
  from body_design_system_persist[OF this assms(5)] assms(1) show ?thesis
    by (simp add: main_def)
qed


text \<open>
  C5 (as amended). In a design-system invocation with \<^verbatim>\<open>--persist\<close> whose generator
  returns, the confirmation lists the master path: the output directory, then
  \<^verbatim>\<open>design-system\<close>, the project slug and \<^verbatim>\<open>MASTER.md\<close>. The output directory is the
  working directory when no \<^verbatim>\<open>--output-dir\<close> is given, and the resolved value of a
  non-empty one. When the \<^verbatim>\<open>--page\<close> value is not empty, the confirmation also lists
  the page path: the same directory, then \<^verbatim>\<open>pages\<close> and the page slug with \<^verbatim>\<open>.md\<close>.
  The slugs are taken to be plain path parts, as the slugging contract promises.
\<close>

theorem confirmation_paths:
  assumes "parse_args e argv = Inr args"
    and "OptDesignSystem \<in> set argv" and "OptPersist \<in> set argv" and "OptJson \<notin> set argv"
    and "generate_design_system e (ns_query args) (ns_project_name args) (ns_format args)
           (ns_persist args) (ns_page args) (ns_output_dir args) = Inr doc"
    and "plain_segment (project_slug e args)"
    and "given (ns_page args) \<longrightarrow>
           47 \<notin> set (slugify_path_segment e (the (ns_page args)) (lit ''page''))"
  shows "Print (master_line e args) \<in> set (fst (main e argv))
       \<and> master_line e args =
           lit ''   '' @ [128196] @ lit '' ''
           @ path_str \<lparr>root = root (base_output_dir e args),
                       tail = tail (base_output_dir e args)
                              @ [lit ''design-system'', project_slug e args, lit ''MASTER.md'']\<rparr>
           @ lit '' (Global Source of Truth)''
       \<and> ((\<forall>d. OptOutputDir d \<notin> set argv) \<longrightarrow> base_output_dir e args = Path_cwd e)
       \<and> (given (ns_output_dir args) \<longrightarrow>
            base_output_dir e args = Path_resolve e (the (ns_output_dir args)))
       \<and> (given (ns_page args) \<longrightarrow>
            Print (page_line e args) \<in> set (fst (main e argv))
            \<and> page_line e args =
                lit ''   '' @ [128196] @ lit '' ''
                @ path_str \<lparr>root = root (base_output_dir e args),
                            tail = tail (base_output_dir e args)
                                   @ [lit ''design-system'', project_slug e args, lit ''pages'',
                                      slugify_path_segment e (the (ns_page args)) (lit ''page'')
                                      @ lit ''.md'']\<rparr>
                @ lit '' (Page Overrides)'')"
proof -
  note m = main_design_system_persist[OF assms(1-5)]
  have a: "Print (master_line e args) \<in> set (fst (main e argv))"
    unfolding m by (simp add: confirmation_def)
  have b: "master_line e args =
           lit ''   '' @ [128196] @ lit '' ''
           @ path_str \<lparr>root = root (base_output_dir e args),
                       tail = tail (base_output_dir e args)
                              @ [lit ''design-system'', project_slug e args, lit ''MASTER.md'']\<rparr>
           @ lit '' (Global Source of Truth)''"
    by (simp only: master_line_def master_path[OF assms(6)])
  have c: "(\<forall>d. OptOutputDir d \<notin> set argv) \<longrightarrow> base_output_dir e args = Path_cwd e"
    using parse_args_no_output_dir[OF assms(1)] by (simp add: base_output_dir_def given_def)
  have d: "given (ns_output_dir args) \<longrightarrow>
            base_output_dir e args = Path_resolve e (the (ns_output_dir args))"
    by (simp add: base_output_dir_def)
  have f: "given (ns_page args) \<longrightarrow>
            Print (page_line e args) \<in> set (fst (main e argv))
            \<and> page_line e args =
                lit ''   '' @ [128196] @ lit '' ''
                @ path_str \<lparr>root = root (base_output_dir e args),
                            tail = tail (base_output_dir e args)
                                   @ [lit ''design-system'', project_slug e args, lit ''pages'',
                                      slugify_path_segment e (the (ns_page args)) (lit ''page'')
                                      @ lit ''.md'']\<rparr>
                @ lit '' (Page Overrides)''"
  proof
    assume g: "given (ns_page args)"
    with assms(7) have p: "47 \<notin> set (slugify_path_segment e (the (ns_page args)) (lit ''page''))"
      by simp
    have "Print (page_line e args) \<in> set (fst (main e argv))"
      unfolding m using g by (simp add: confirmation_def)
    moreover have "page_line e args =
                lit ''   '' @ [128196] @ lit '' ''
                @ path_str \<lparr>root = root (base_output_dir e args),
                            tail = tail (base_output_dir e args)
                                   @ [lit ''design-system'', project_slug e args, lit ''pages'',
                                      slugify_path_segment e (the (ns_page args)) (lit ''page'')
                                      @ lit ''.md'']\<rparr>
                @ lit '' (Page Overrides)''"
      by (simp only: page_line_def Let_def page_path[OF assms(6) p])
    ultimately show "Print (page_line e args) \<in> set (fst (main e argv))
            \<and> page_line e args =
                lit ''   '' @ [128196] @ lit '' ''
                @ path_str \<lparr>root = root (base_output_dir e args),
                            tail = tail (base_output_dir e args)
                                   @ [lit ''design-system'', project_slug e args, lit ''pages'',
                                      slugify_path_segment e (the (ns_page args)) (lit ''page'')
                                      @ lit ''.md'']\<rparr>
                @ lit '' (Page Overrides)''" by (rule conjI)
  qed
  from a b c d f show ?thesis by (intro conjI)
qed

lemma slug_saas: "slugify (upper_ascii (lit ''saas app'')) (lit ''default'') = lit ''saas-app''"
  by (simp add: slugify_def strip_sep_def upper_ascii_def lower_cp_def is_alnum_def lit_def)

lemma slug_home: "slugify (lit ''Home Page'') (lit ''page'') = lit ''home-page''"
  by (simp add: slugify_def strip_sep_def lower_cp_def is_alnum_def lit_def)

lemma persist_args_fields:
  "ns_query (persist_args page) = lit ''saas app''"
  "ns_project_name (persist_args page) = None"
  "ns_format (persist_args page) = lit ''ascii''"
  "ns_persist (persist_args page)" "ns_design_system (persist_args page)"
  "\<not> ns_json (persist_args page)"
  "ns_page (persist_args page) = page"
  "ns_output_dir (persist_args page) = None"
  by (simp_all add: persist_args_def defaults_def)

lemma demo_env_fields:
  "slugify_path_segment demo_env = slugify" "str_upper demo_env = upper_ascii"
  "Path_cwd demo_env = \<lparr>root = [47], tail = [lit ''work'']\<rparr>"
  "generate_design_system demo_env q p f b pg out = Inr (lit ''DOC'')"
  by (simp_all add: demo_env_def)

lemma demo_project_slug: "project_slug demo_env (persist_args page) = lit ''saas-app''"
  by (simp add: project_slug_def persist_args_fields demo_env_fields given_def slug_saas)

lemma demo_base: "base_output_dir demo_env (persist_args page) = \<lparr>root = [47], tail = [lit ''work'']\<rparr>"
  by (simp add: base_output_dir_def persist_args_fields demo_env_fields given_def)

lemma plain_saas: "plain_segment (lit ''saas-app'')"
  by (simp add: plain_segment_def lit_def)

lemma demo_dir:
  "design_system_dir demo_env (persist_args page) =
     \<lparr>root = [47], tail = [lit ''work'', lit ''design-system'', lit ''saas-app'']\<rparr>"
  by (simp add: design_system_dir_def demo_project_slug demo_base
      joinpath_plain[OF plain_literals(1)] joinpath_plain[OF plain_saas])

lemma demo_dir_str:
  "path_str (design_system_dir demo_env (persist_args page)) = lit ''/work/design-system/saas-app''"
  by (simp add: demo_dir path_str_def) (simp add: lit_def)

lemma demo_master_line:
  "master_line demo_env (persist_args page) =
     lit ''   '' @ [128196] @ lit '' /work/design-system/saas-app/MASTER.md (Global Source of Truth)''"
  by (simp add: master_line_def demo_dir joinpath_plain[OF plain_literals(2)] path_str_def)
     (simp add: lit_def)

lemma plain_home: "plain_segment (lit ''home-page'' @ lit ''.md'')" "plain_segment (lit ''[page].md'')"
  by (simp_all add: plain_segment_def lit_def)

lemma demo_page_line:
  "page_line demo_env (persist_args (Some (lit ''Home Page''))) =
     lit ''   '' @ [128196] @ lit '' /work/design-system/saas-app/pages/home-page.md (Page Overrides)''"
  by (simp add: page_line_def persist_args_fields demo_env_fields slug_home demo_dir
      joinpath_plain[OF plain_literals(3)] joinpath_plain[OF plain_home(1)] path_str_def)
     (simp add: lit_def)

lemma demo_usage_line:
  "path_str (joinpath (joinpath (design_system_dir demo_env (persist_args page)) (lit ''pages''))
       (lit ''[page].md'')) = lit ''/work/design-system/saas-app/pages/[page].md''"
  by (simp add: demo_dir joinpath_plain[OF plain_literals(3)] joinpath_plain[OF plain_home(2)]
      path_str_def) (simp add: lit_def)

lemma demo_parse_persist:
  "parse_args demo_env [Positional (lit ''saas app''), OptDesignSystem, OptPersist]
     = Inr (persist_args None)"
  "parse_args demo_env [Positional (lit ''saas app''), OptDesignSystem, OptPersist, OptPage p]
     = Inr (persist_args (Some p))"
  by (simp_all add: parse_args_def persist_args_def defaults_def)


text \<open>C5 as amended, at \<^verbatim>\<open>'saas app' --design-system --persist --page 'Home Page'\<close>.\<close>

theorem confirmation_paths_witness:
  "Print (lit ''   '' @ [128196]
          @ lit '' /work/design-system/saas-app/MASTER.md (Global Source of Truth)'')
     \<in> set (fst (main demo_env
           [Positional (lit ''saas app''), OptDesignSystem, OptPersist, OptPage (lit ''Home Page'')]))
   \<and> Print (lit ''   '' @ [128196]
          @ lit '' /work/design-system/saas-app/pages/home-page.md (Page Overrides)'')
     \<in> set (fst (main demo_env
           [Positional (lit ''saas app''), OptDesignSystem, OptPersist, OptPage (lit ''Home Page'')]))"
proof -
  let ?argv = "[Positional (lit ''saas app''), OptDesignSystem, OptPersist, OptPage (lit ''Home Page'')]"
  let ?args = "persist_args (Some (lit ''Home Page''))"
  have t: "OptDesignSystem \<in> set ?argv" "OptPersist \<in> set ?argv" "OptJson \<notin> set ?argv"
    by simp_all
  have s: "plain_segment (project_slug demo_env ?args)"
    by (simp add: demo_project_slug plain_saas)
  have g: "given (ns_page ?args)"
    by (simp add: persist_args_fields given_def lit_def)
  have p: "given (ns_page ?args) \<longrightarrow>
      47 \<notin> set (slugify_path_segment demo_env (the (ns_page ?args)) (lit ''page''))"
    by (simp add: persist_args_fields demo_env_fields slug_home) (simp add: lit_def)
  from confirmation_paths[OF demo_parse_persist(2) t demo_env_fields(4) s p] g
  have "Print (master_line demo_env ?args) \<in> set (fst (main demo_env ?argv))"
    and "Print (page_line demo_env ?args) \<in> set (fst (main demo_env ?argv))"
    by blast+
  then show ?thesis by (simp only: demo_master_line demo_page_line)
qed

text \<open>
  C5, the claim as stated, fails: with \<^verbatim>\<open>--page ''\<close> the page is supplied, and the
  confirmation lists no page override path.
\<close>

theorem empty_page_lists_no_override:
  "main demo_env [Positional (lit ''saas app''), OptDesignSystem, OptPersist, OptPage []] =
     ([CallGenerateDesignSystem (lit ''saas app'') None (lit ''ascii'') True (Some []) None,
       Print (lit ''DOC''),
       Print ([10] @ replicate 60 61),
       Print ([9989] @ lit '' Design system persisted to /work/design-system/saas-app/''),
       Print (lit ''   '' @ [128196]
              @ lit '' /work/design-system/saas-app/MASTER.md (Global Source of Truth)''),
       Print [],
       Print ([128214] @ lit '' Usage: When building a page, check ''
              @ lit ''/work/design-system/saas-app/pages/[page].md'' @ lit '' first.''),
       Print (lit ''   If exists, its rules override MASTER.md. Otherwise, use MASTER.md.''),
       Print (replicate 60 61)],
      Finished)"
  by (simp add: main_def demo_parse_persist(2) body_def run_design_system_def persist_args_fields
      demo_env_fields given_def confirmation_def demo_master_line demo_dir_str demo_usage_line)
     (simp add: lit_def)

subsection \<open>Slugging is idempotent\<close>

lemma lower_cp_idem: "lower_cp (lower_cp c) = lower_cp c"
  by (simp add: lower_cp_def)

lemma is_alnum_lower_cp: "is_alnum (lower_cp c) = is_alnum c"
  by (auto simp: lower_cp_def is_alnum_def)

lemma not_alnum_sep: "\<not> is_alnum 45"
  by (simp add: is_alnum_def)

lemma tidy_squeeze_lower: "tidy (squeeze (map lower_cp x))"
  by (induction x) (auto simp: is_alnum_lower_cp lower_cp_idem)

lemma squeeze_tidy: "tidy s \<Longrightarrow> squeeze s = s"
  by (induction s) (auto simp: not_alnum_sep)

lemma lower_tidy: "tidy s \<Longrightarrow> map lower_cp s = s"
  by (induction s) (auto simp: lower_cp_def)

lemma tidy_dropWhile: "tidy s \<Longrightarrow> tidy (dropWhile P s)"
  by (induction s) auto

lemma tidy_prefix: "tidy (a @ b) \<Longrightarrow> tidy a"
proof (induction a)
  case Nil
  then show ?case by simp
next
  case (Cons c a)
  then have t: "tidy a" by simp
  from Cons.prems have "(c = 45 \<and> take 1 (a @ b) \<noteq> [45]) \<or> (is_alnum c \<and> lower_cp c = c)"
    by simp
  moreover have "take 1 (a @ b) \<noteq> [45] \<Longrightarrow> take 1 a \<noteq> [45]"
    by (cases a) auto
  ultimately show ?case using t by auto
qed

lemma rev_dropWhile_rev_prefix: "rev (dropWhile P (rev s)) @ rev (takeWhile P (rev s)) = s"
proof -
  have "rev (takeWhile P (rev s) @ dropWhile P (rev s)) = s"
    by (simp only: takeWhile_dropWhile_id rev_rev_ident)
  then show ?thesis by (simp only: rev_append)
qed

lemma tidy_strip_sep: "tidy s \<Longrightarrow> tidy (strip_sep s)"
proof -
  assume "tidy s"
  then have "tidy (dropWhile (\<lambda>c. c = 45) s)" by (rule tidy_dropWhile)
  then have "tidy (rev (dropWhile (\<lambda>c. c = 45) (rev (dropWhile (\<lambda>c. c = 45) s)))
        @ rev (takeWhile (\<lambda>c. c = 45) (rev (dropWhile (\<lambda>c. c = 45) s))))"
    by (simp only: rev_dropWhile_rev_prefix)
  then show ?thesis unfolding strip_sep_def by (rule tidy_prefix)
qed

lemma dropWhile_rev_prefix_fixed:
  fixes P :: "'a \<Rightarrow> bool"
  assumes "t = dropWhile P s" and "u = rev (dropWhile P (rev t))"
  shows "dropWhile P u = u"
proof (cases "u = []")
  case True
  then show ?thesis by simp
next
  case False
  have ut: "u @ rev (takeWhile P (rev t)) = t"
    unfolding assms(2) by (rule rev_dropWhile_rev_prefix)
  have "hd (u @ rev (takeWhile P (rev t))) = hd u"
    using False by (rule hd_append2)
  then have h: "hd t = hd u" by (simp only: ut)
  from False ut have "t \<noteq> []" by auto
  then have "dropWhile P s \<noteq> []" unfolding assms(1) .
  then have "\<not> P (hd (dropWhile P s))" by (rule hd_dropWhile)
  then have "\<not> P (hd t)" unfolding assms(1) .
  then have "\<not> P (hd u)" unfolding h .
  then have "u = [] \<or> \<not> P (hd u)" by (rule disjI2)
  then show ?thesis by (simp only: dropWhile_eq_self_iff)
qed

lemma strip_sep_idem: "strip_sep (strip_sep s) = strip_sep s"
proof -
  define t where "t = dropWhile (\<lambda>c::nat. c = 45) s"
  define u where "u = rev (dropWhile (\<lambda>c::nat. c = 45) (rev t))"
  have front: "dropWhile (\<lambda>c. c = 45) u = u"
    using t_def u_def by (rule dropWhile_rev_prefix_fixed)
  have su: "strip_sep s = u"
    by (simp only: strip_sep_def t_def u_def)
  have "strip_sep u = rev (dropWhile (\<lambda>c. c = 45) (rev (dropWhile (\<lambda>c. c = 45) u)))"
    by (simp only: strip_sep_def)
  also have "\<dots> = rev (dropWhile (\<lambda>c. c = 45) (rev u))"
    by (simp only: front)
  also have "rev u = dropWhile (\<lambda>c. c = 45) (rev t)"
    by (simp only: u_def rev_rev_ident)
  also have "rev (dropWhile (\<lambda>c. c = 45) (dropWhile (\<lambda>c. c = 45) (rev t))) = u"
    by (simp only: dropWhile_idem u_def)
  finally have "strip_sep u = u" .
  then show ?thesis by (simp only: su)
qed

lemma slug_fixed:
  assumes "s = strip_sep (squeeze (map lower_cp x))"
  shows "strip_sep (squeeze (map lower_cp s)) = s"
proof -
  have "tidy s" unfolding assms by (rule tidy_strip_sep[OF tidy_squeeze_lower])
  then have "squeeze (map lower_cp s) = s" by (simp add: lower_tidy squeeze_tidy)
  then show ?thesis by (simp add: assms strip_sep_idem)
qed

lemma slugify_idem:
  assumes "slugify fb fb = fb"
  shows "slugify (slugify x fb) fb = slugify x fb"
proof (cases "strip_sep (squeeze (map lower_cp x)) = []")
  case True
  then have "slugify x fb = fb" by (simp add: slugify_def)
  with assms show ?thesis by simp
next
  case False
  then have e: "slugify x fb = strip_sep (squeeze (map lower_cp x))" by (simp add: slugify_def)
  from slug_fixed[OF refl, of x] False show ?thesis
    unfolding e by (simp add: slugify_def)
qed

lemma slugify_fallbacks:
  "slugify (lit ''default'') (lit ''default'') = lit ''default''"
  "slugify (lit ''page'') (lit ''page'') = lit ''page''"
  by (simp_all add: slugify_def strip_sep_def lower_cp_def is_alnum_def lit_def)

text \<open>
  C7. \<^verbatim>\<open>slugify\<close> is a total function, so it returns a slug for every string; for the
  empty string that is the fallback, and for \<^verbatim>\<open>../../etc\<close> it is \<^verbatim>\<open>etc\<close>. It is
  idempotent for both fallbacks that the script uses, \<^verbatim>\<open>default\<close> and \<^verbatim>\<open>page\<close>, and for
  every fallback that is a slug itself.
\<close>

theorem slugify_total_idempotent:
  "slugify (slugify x (lit ''default'')) (lit ''default'') = slugify x (lit ''default'')
   \<and> slugify (slugify x (lit ''page'')) (lit ''page'') = slugify x (lit ''page'')
   \<and> (slugify fb fb = fb \<longrightarrow> slugify (slugify x fb) fb = slugify x fb)
   \<and> slugify [] (lit ''default'') = lit ''default''
   \<and> slugify (lit ''../../etc'') (lit ''default'') = lit ''etc''"
proof -
  have "slugify [] (lit ''default'') = lit ''default''"
    by (simp add: slugify_def strip_sep_def)
  moreover have "slugify (lit ''../../etc'') (lit ''default'') = lit ''etc''"
    by (simp add: slugify_def strip_sep_def lower_cp_def is_alnum_def lit_def)
  ultimately show ?thesis
    using slugify_idem[OF slugify_fallbacks(1), of x] slugify_idem[OF slugify_fallbacks(2), of x]
      slugify_idem[of fb x]
    by blast
qed

text \<open>C7 at the name \<^verbatim>\<open>Acme  Corp!\<close>, and at the fallback \<^verbatim>\<open>acme-corp\<close>.\<close>

theorem slugify_total_idempotent_witness:
  "slugify (lit ''Acme  Corp!'') (lit ''default'') = lit ''acme-corp''
   \<and> slugify (slugify (lit ''Acme  Corp!'') (lit ''default'')) (lit ''default'') = lit ''acme-corp''
   \<and> slugify (lit ''acme-corp'') (lit ''acme-corp'') = lit ''acme-corp''
   \<and> slugify (slugify (lit ''!!'') (lit ''acme-corp'')) (lit ''acme-corp'') = lit ''acme-corp''"
proof -
  have a: "slugify (lit ''Acme  Corp!'') (lit ''default'') = lit ''acme-corp''"
    and b: "slugify (lit ''acme-corp'') (lit ''acme-corp'') = lit ''acme-corp''"
    and c: "slugify (lit ''!!'') (lit ''acme-corp'') = lit ''acme-corp''"
    by (simp_all add: slugify_def strip_sep_def lower_cp_def is_alnum_def lit_def)
  from slugify_total_idempotent[of "lit ''Acme  Corp!''" "lit ''acme-corp''"] a b c
  show ?thesis by simp
qed

subsection \<open>The order of ranked results\<close>

lemma scored_positions: "map position (scored bm25 query rows) = [0 ..< length rows]"
proof -
  have "map position (scored bm25 query rows) = map fst (enumerate 0 rows)"
    by (simp add: scored_def position_def case_prod_unfold comp_def)
  then show ?thesis by simp
qed

lemma scored_by_position:
  "sorted_wrt (\<lambda>a b. position a < position b) (scored bm25 query rows)"
proof -
  have "sorted_wrt (<) (map position (scored bm25 query rows))"
    by (simp only: scored_positions sorted_wrt_upt)
  then show ?thesis by (simp only: sorted_wrt_map)
qed

lemma ranks_before_score: "ranks_before a b \<Longrightarrow> score b \<le> score a"
  by (auto simp: ranks_before_def)

lemma insort_ranks_before:
  assumes "sorted_wrt ranks_before ys" and "\<forall>y \<in> set ys. position x < position y"
  shows "sorted_wrt ranks_before (insort_key (\<lambda>x. - score x) x ys)"
  using assms
proof (induction ys)
  case Nil
  then show ?case by simp
next
  case (Cons y ys)
  show ?case
  proof (cases "score y \<le> score x")
    case True
    have "ranks_before x z" if "z \<in> set (y # ys)" for z
    proof -
      from that Cons.prems(1) have "z = y \<or> ranks_before y z"
        by (metis sorted_wrt.simps(2) set_ConsD)
      then have "score z \<le> score y"
        using ranks_before_score[of y z] by blast
      with True have "score z \<le> score x" by simp
      moreover from that Cons.prems(2) have "position x < position z" by blast
      ultimately show ?thesis by (auto simp: ranks_before_def)
    qed
    with True Cons.prems(1) show ?thesis by simp
  next
    case False
    then have yx: "ranks_before y x" by (simp add: ranks_before_def)
    from Cons.prems have "sorted_wrt ranks_before (insort_key (\<lambda>x. - score x) x ys)"
      using Cons.IH by simp
    moreover from Cons.prems(1) yx
    have "\<forall>z \<in> set (insort_key (\<lambda>x. - score x) x ys). ranks_before y z"
      by (simp add: set_insort_key)
    ultimately show ?thesis using False by simp
  qed
qed

lemma sort_ranks_before:
  "sorted_wrt (\<lambda>a b. position a < position b) xs
     \<Longrightarrow> sorted_wrt ranks_before (sort_key (\<lambda>x. - score x) xs)"
proof (induction xs)
  case Nil
  then show ?case by simp
next
  case (Cons x xs)
  then have "sorted_wrt ranks_before (sort_key (\<lambda>x. - score x) xs)" by simp
  moreover from Cons.prems have "\<forall>y \<in> set (sort_key (\<lambda>x. - score x) xs). position x < position y"
    by simp
  ultimately show ?case by (simp add: insort_ranks_before)
qed

lemma sorted_wrt_take_prefix: "sorted_wrt R xs \<Longrightarrow> sorted_wrt R (take n xs)"
proof -
  assume "sorted_wrt R xs"
  then have "sorted_wrt R (take n xs @ drop n xs)" by simp
  then show ?thesis by (simp only: sorted_wrt_append)
qed

lemma rank_ranks_before: "sorted_wrt ranks_before (rank bm25 query rows limit)"
  unfolding rank_def
  by (intro sorted_wrt_take_prefix sort_ranks_before sorted_wrt_filter scored_by_position)

lemma rank_subset: "set (rank bm25 query rows limit) \<subseteq> set (scored bm25 query rows)"
proof -
  have "set (rank bm25 query rows limit)
      \<subseteq> set (sort_key (\<lambda>x. - score x) (filter (\<lambda>x. 0 < score x) (scored bm25 query rows)))"
    unfolding rank_def by (rule set_take_subset)
  then show ?thesis by auto
qed

lemma scored_member:
  assumes "x \<in> set (scored bm25 query rows)"
  shows "position x < length rows \<and> fst (snd x) = rows ! position x
         \<and> score x = bm25 query rows (rows ! position x)"
proof -
  from assms obtain p where p: "p \<in> set (enumerate 0 rows)"
    and x: "x = (fst p, snd p, bm25 query rows (snd p))"
    by (auto simp: scored_def)
  from p have "fst p < length rows" "rows ! fst p = snd p"
    by (simp_all add: in_set_enumerate_eq)
  with x show ?thesis by (simp add: position_def score_def)
qed

text \<open>
  C8. For every query, corpus and limit, and whatever the scoring function, the results of
  \<^verbatim>\<open>rank\<close> have non-increasing scores, two results with equal scores stand in the
  order of their rows in the corpus, and each result is the corpus row at its position
  with that row's score.
\<close>

theorem rank_sorted_stable:
  "sorted_wrt (\<lambda>a b. score b \<le> score a) (rank bm25 query rows limit)
   \<and> sorted_wrt (\<lambda>a b. score a = score b \<longrightarrow> position a < position b)
       (rank bm25 query rows limit)
   \<and> (\<forall>x \<in> set (rank bm25 query rows limit).
        position x < length rows \<and> fst (snd x) = rows ! position x
        \<and> score x = bm25 query rows (rows ! position x))"
proof -
  have a: "sorted_wrt (\<lambda>a b. score b \<le> score a) (rank bm25 query rows limit)"
    by (rule sorted_wrt_mono_rel[OF _ rank_ranks_before]) (auto simp: ranks_before_def)
  have b: "sorted_wrt (\<lambda>a b. score a = score b \<longrightarrow> position a < position b)
       (rank bm25 query rows limit)"
    by (rule sorted_wrt_mono_rel[OF _ rank_ranks_before]) (auto simp: ranks_before_def)
  have c: "\<forall>x \<in> set (rank bm25 query rows limit).
        position x < length rows \<and> fst (snd x) = rows ! position x
        \<and> score x = bm25 query rows (rows ! position x)"
    using rank_subset[of bm25 query rows limit] scored_member[of _ bm25 query rows] by blast
  from a b c show ?thesis by (intro conjI)
qed

text \<open>
  C8 on a corpus of five rows, each scored by its own value, with the limit 4: the two
  rows of score 2 come first, in corpus order, then two of the rows of score 1.
\<close>

theorem rank_sorted_stable_witness:
  "rank (\<lambda>q rows r. real r) () [1, 0, 2, 1, 2] 4 = [(2, 2, 2), (4, 2, 2), (0, 1, 1), (3, 1, 1)]
   \<and> sorted_wrt (\<lambda>a b. score b \<le> score a) [(2, 2::nat, 2), (4, 2, 2), (0, 1, 1), (3, 1, 1)]
   \<and> sorted_wrt (\<lambda>a b. score a = score b \<longrightarrow> position a < position b)
        [(2, 2::nat, 2), (4, 2, 2), (0, 1, 1), (3, 1, 1)]"
proof -
  have r: "rank (\<lambda>q rows r. real r) () [1, 0, 2, 1, 2] 4 = [(2, 2, 2), (4, 2, 2), (0, 1, 1), (3, 1, 1)]"
    by (simp add: rank_def scored_def score_def)
  from rank_sorted_stable[of "\<lambda>q rows r. real r" "()" "[1, 0, 2, 1, 2]" 4]
  show ?thesis unfolding r by simp
qed

end
